theory Spec2Isabelle
  imports Main "HOL-Library.Multiset" "HOL-Library.Option_ord"
begin

section \<open>Python string primitives used by the application\<close>

text \<open>
  Strings are modelled as \<open>char list\<close>, a character being a code point below 256;
  code points from 256 on are outside the model.
\<close>

definition digit_char :: "nat \<Rightarrow> char" where
  "digit_char d = char_of (48 + d)"

text \<open>\<open>str(n)\<close> for a non-negative Python integer: its decimal digits.\<close>

function str_nat :: "nat \<Rightarrow> string" where
  "str_nat n = (if n < 10 then [digit_char n] else str_nat (n div 10) @ [digit_char (n mod 10)])"
  by pat_completeness auto
termination
  by (relation "measure id") auto

declare str_nat.simps [simp del]

text \<open>\<open>str(i)\<close> for any Python integer.\<close>

definition str_int :: "int \<Rightarrow> string" where
  "str_int i = (if i < 0 then CHR ''-'' # str_nat (nat (- i)) else str_nat (nat i))"

text \<open>Reading a decimal numeral back; only used to show that \<open>str_nat\<close> is injective.\<close>

definition digit_val :: "char \<Rightarrow> nat" where
  "digit_val c = of_char c - 48"

definition val_of_digits :: "string \<Rightarrow> nat" where
  "val_of_digits s = foldl (\<lambda>a c. 10 * a + digit_val c) 0 s"

text \<open>
  \<open>str.lower()\<close> and \<open>str.strip()\<close> on these code points: the capital letters are A to Z
  and U+00C0 to U+00DE without the multiplication sign U+00D7; white space is U+0009 to
  U+000D, U+001C to U+0020, U+0085 and U+00A0.
\<close>

definition lower_char :: "char \<Rightarrow> char" where
  "lower_char c =
     (let n = (of_char c :: nat)
      in if (65 \<le> n \<and> n \<le> 90) \<or> (192 \<le> n \<and> n \<le> 222 \<and> n \<noteq> 215) then char_of (n + 32) else c)"

definition lower :: "string \<Rightarrow> string" where
  "lower s = map lower_char s"

definition isspace :: "char \<Rightarrow> bool" where
  "isspace c =
     (let n = (of_char c :: nat)
      in (9 \<le> n \<and> n \<le> 13) \<or> (28 \<le> n \<and> n \<le> 32) \<or> n = 133 \<or> n = 160)"

definition strip :: "string \<Rightarrow> string" where
  "strip s = rev (dropWhile isspace (rev (dropWhile isspace s)))"

section \<open>Data model (models.py)\<close>

text \<open>
  A Python object of class \<open>User\<close> or \<open>Task\<close>. An attribute that is \<open>None\<close> until the
  object is flushed (or until the caller sets it) is an option.
\<close>

record user =
  u_id :: "int option"
  u_name :: string
  u_email :: string
  u_password_hash :: "string option"
  u_created_at :: "int option"

record task =
  t_id :: "int option"
  t_user_id :: "int option"
  t_title :: string
  t_description :: "string option"
  t_due_date :: "int option"
  t_priority :: "int option"
  t_completed :: "bool option"
  t_slug :: "string option"
  t_created_at :: "int option"

text \<open>
  What the relational store rejects. \<open>IntegrityError\<close> is the exception class that
  \<open>Task.save\<close> catches; a value too long for its \<open>String(n)\<close> column is a \<open>DataError\<close>,
  a different class.
\<close>

datatype violation = NotNullViolation string | UniqueViolation string | ForeignKeyViolation string

datatype db_error = IntegrityError violation | DataError string

text \<open>The calls this session makes on \<open>db.session\<close>, in order.\<close>

datatype event = Add | Commit "db_error option" | Rollback

text \<open>
  The store: the rows of the two tables in insertion order, the two id sequences, and
  the trace of session calls.
\<close>

record db =
  users :: "user list"
  tasks :: "task list"
  user_seq :: int
  task_seq :: int
  log :: "event list"

section \<open>Queries\<close>

text \<open>\<open>User.query.filter_by(email=email).first()\<close>\<close>

definition get_by_email :: "db \<Rightarrow> string \<Rightarrow> user option" where
  "get_by_email d e = find (\<lambda>u. u_email u = e) (users d)"

text \<open>\<open>db.session.get(User, user_id)\<close>\<close>

definition get_by_id :: "db \<Rightarrow> int \<Rightarrow> user option" where
  "get_by_id d i = find (\<lambda>u. u_id u = Some i) (users d)"

text \<open>\<open>Task.query.filter_by(slug=slug).first()\<close>\<close>

definition get_by_slug :: "db \<Rightarrow> string \<Rightarrow> task option" where
  "get_by_slug d s = find (\<lambda>t. t_slug t = Some s) (tasks d)"

section \<open>Slug generation\<close>

text \<open>Python truthiness of an optional string: \<open>not s\<close> holds for \<open>None\<close> and for \<open>''\<close>.\<close>

definition falsy_str :: "string option \<Rightarrow> bool" where
  "falsy_str s = (case s of None \<Rightarrow> True | Some v \<Rightarrow> v = [])"

text \<open>\<open>f"{base}-{counter}"\<close>\<close>

definition suffixed :: "string \<Rightarrow> nat \<Rightarrow> string" where
  "suffixed base counter = base @ ''-'' @ str_nat counter"

text \<open>The set of counters from \<open>c\<close> on whose suffixed candidate is taken; it is finite.\<close>

definition taken_from :: "db \<Rightarrow> string \<Rightarrow> nat \<Rightarrow> nat set" where
  "taken_from d base c = {k. c \<le> k \<and> get_by_slug d (suffixed base k) \<noteq> None}"

lemma digit_val_digit_char: "d < 10 \<Longrightarrow> digit_val (digit_char d) = d"
  by (simp add: digit_val_def digit_char_def)

lemma val_of_digits_snoc: "val_of_digits (s @ [c]) = 10 * val_of_digits s + digit_val c"
  by (simp add: val_of_digits_def)

lemma val_of_digits_str_nat: "val_of_digits (str_nat n) = n"
proof (induction n rule: str_nat.induct)
  case (1 n)
  show ?case
  proof (cases "n < 10")
    case True
    then show ?thesis
      by (subst str_nat.simps) (simp add: val_of_digits_def digit_val_digit_char)
  next
    case False
    with 1 have "val_of_digits (str_nat (n div 10)) = n div 10" by simp
    with False show ?thesis
      by (subst str_nat.simps) (simp add: val_of_digits_snoc digit_val_digit_char)
  qed
qed

lemma inj_str_nat: "inj str_nat"
  by (rule inj_on_inverseI [where g = val_of_digits]) (rule val_of_digits_str_nat)

lemma inj_suffixed: "inj (suffixed base)"
  using inj_str_nat by (auto simp: suffixed_def inj_on_def)

lemma finite_taken_from: "finite (taken_from d base c)"
proof -
  have "inj (\<lambda>k. Some (suffixed base k))"
    using inj_suffixed [of base] by (simp add: inj_on_def)
  then have "finite ((\<lambda>k. Some (suffixed base k)) -` (t_slug ` set (tasks d)))"
    by (intro finite_vimageI) simp_all
  moreover have "taken_from d base c \<subseteq> (\<lambda>k. Some (suffixed base k)) -` (t_slug ` set (tasks d))"
    by (auto simp: taken_from_def get_by_slug_def find_None_iff image_iff) metis
  ultimately show ?thesis
    by (rule rev_finite_subset)
qed

lemma taken_from_step:
  "taken_from d base c =
     (if get_by_slug d (suffixed base c) \<noteq> None then insert c (taken_from d base (Suc c))
      else taken_from d base (Suc c))"
  by (auto simp: taken_from_def Suc_le_eq le_less)

text \<open>
  The \<open>while\<close> loop of \<open>Task._generate_unique_slug\<close>. Every query of the loop reads the
  same snapshot of the table. The loop always ends: the suffixed candidates are pairwise
  different and the table is finite.
\<close>

function slug_loop :: "db \<Rightarrow> string \<Rightarrow> string \<Rightarrow> nat \<Rightarrow> string" where
  "slug_loop d base slug_candidate counter =
     (if get_by_slug d slug_candidate \<noteq> None
      then slug_loop d base (suffixed base counter) (counter + 1)
      else slug_candidate)"
  by pat_completeness auto
termination
proof (relation "measure (\<lambda>(d, base, cand, c).
          2 * card (taken_from d base c) + (if get_by_slug d cand \<noteq> None then 1 else 0))")
  show "wf (measure (\<lambda>(d, base, cand, c).
          2 * card (taken_from d base c) + (if get_by_slug d cand \<noteq> None then 1 else 0)))"
    by simp
next
  fix d base slug_candidate and counter :: nat
  assume taken: "get_by_slug d slug_candidate \<noteq> None"
  have fin: "finite (taken_from d base (Suc counter))"
    by (rule finite_taken_from)
  have fresh: "counter \<notin> taken_from d base (Suc counter)"
    by (simp add: taken_from_def)
  have "card (taken_from d base counter) =
      card (taken_from d base (Suc counter)) +
        (if get_by_slug d (suffixed base counter) \<noteq> None then 1 else 0)"
    using fin fresh by (subst taken_from_step) (simp del: not_None_eq)
  with taken show "((d, base, suffixed base counter, counter + 1), (d, base, slug_candidate, counter))
      \<in> measure (\<lambda>(d, base, cand, c).
          2 * card (taken_from d base c) + (if get_by_slug d cand \<noteq> None then 1 else 0))"
    by (simp del: not_None_eq)
qed


declare slug_loop.simps [simp del]

text \<open>
  \<open>Task._generate_unique_slug\<close>. \<open>slugify\<close> is the function of the python-slugify
  package, a parameter here. \<open>self.id or ''\<close> is empty for \<open>None\<close> and for 0.
\<close>

definition generate_unique_slug :: "(string \<Rightarrow> string) \<Rightarrow> db \<Rightarrow> task \<Rightarrow> string" where
  "generate_unique_slug slugify d self =
     (let base = slugify (t_title self);
          base = (if base = []
                  then slugify (''task-'' @ (case t_id self of None \<Rightarrow> []
                                             | Some i \<Rightarrow> if i = 0 then [] else str_int i))
                  else base)
      in slug_loop d base base 1)"

text \<open>The \<open>before_insert\<close> hook: \<open>slugify(target.title) or 'task'\<close> when the slug is missing.\<close>

definition task_before_insert :: "(string \<Rightarrow> string) \<Rightarrow> task \<Rightarrow> task" where
  "task_before_insert slugify target =
     (if falsy_str (t_slug target)
      then (let base = (let s = slugify (t_title target) in if s = [] then ''task'' else s)
            in target\<lparr>t_slug := Some base\<rparr>)
      else target)"

section \<open>The session: flush, commit, rollback\<close>

text \<open>Column defaults of \<open>tasks\<close>, filled in at the INSERT.\<close>

definition task_defaults :: "int \<Rightarrow> db \<Rightarrow> task \<Rightarrow> task" where
  "task_defaults now d t =
     t\<lparr>t_id := Some (case t_id t of None \<Rightarrow> task_seq d | Some i \<Rightarrow> i),
       t_priority := Some (case t_priority t of None \<Rightarrow> 3 | Some p \<Rightarrow> p),
       t_completed := Some (case t_completed t of None \<Rightarrow> False | Some c \<Rightarrow> c),
       t_created_at := Some (case t_created_at t of None \<Rightarrow> now | Some c \<Rightarrow> c)\<rparr>"

text \<open>An \<open>Integer\<close> column holds 32 bits.\<close>

definition int4 :: "int option \<Rightarrow> bool" where
  "int4 v = (case v of None \<Rightarrow> True | Some i \<Rightarrow> - 2147483648 \<le> i \<and> i \<le> 2147483647)"

text \<open>
  The flush of one pending \<open>Task\<close>: the \<open>before_insert\<close> hook runs, then the INSERT with
  what the column declarations of \<open>Task\<close> give the table. First the values must fit
  their columns (\<open>Integer\<close>, \<open>String(200)\<close>, \<open>String(255)\<close>), else \<open>DataError\<close>; then
  \<open>nullable=False\<close>, the primary key, \<open>unique=True\<close> on \<open>slug\<close>, and the foreign key to
  \<open>users.id\<close>, else \<open>IntegrityError\<close>. A rejected INSERT leaves the table as it was.
  (PostgreSQL cuts an over-long string to the column length when the excess is blanks
  only; here every over-long string is rejected.)
\<close>

definition insert_task :: "(string \<Rightarrow> string) \<Rightarrow> int \<Rightarrow> db \<Rightarrow> task \<Rightarrow> db_error + (db \<times> task)" where
  "insert_task slugify now d target =
     (let t = task_defaults now d (task_before_insert slugify target) in
      if \<not> int4 (t_id t) then Inl (DataError ''id'')
      else if \<not> int4 (t_user_id t) then Inl (DataError ''user_id'')
      else if 200 < length (t_title t) then Inl (DataError ''title'')
      else if \<not> int4 (t_priority t) then Inl (DataError ''priority'')
      else if (case t_slug t of None \<Rightarrow> False | Some s \<Rightarrow> 255 < length s)
        then Inl (DataError ''slug'')
      else if t_user_id t = None then Inl (IntegrityError (NotNullViolation ''user_id''))
      else case t_slug t of
        None \<Rightarrow> Inl (IntegrityError (NotNullViolation ''slug''))
      | Some s \<Rightarrow>
          if find (\<lambda>r. t_id r = t_id t) (tasks d) \<noteq> None
            then Inl (IntegrityError (UniqueViolation ''id''))
          else if get_by_slug d s \<noteq> None then Inl (IntegrityError (UniqueViolation ''slug''))
          else if find (\<lambda>u. u_id u = t_user_id t) (users d) = None
            then Inl (IntegrityError (ForeignKeyViolation ''user_id''))
          else Inr (d\<lparr>tasks := tasks d @ [t],
                      task_seq := (if t_id target = None then task_seq d + 1 else task_seq d)\<rparr>, t))"

text \<open>
  What the world looks like at one commit attempt of \<open>Task.save\<close>: the rows that other
  sessions have committed since this session last queried the store (tasks, the race
  that the comment in \<open>Task.save\<close> speaks of, and users, from \<open>signup\<close>), and the value
  of \<open>datetime.utcnow()\<close>.
\<close>

record attempt =
  others :: "task list"
  other_users :: "user list"
  utcnow :: int

text \<open>The rows of other sessions reach the tables; their ids came from the same sequences.\<close>

definition concurrent_writes :: "attempt \<Rightarrow> db \<Rightarrow> db" where
  "concurrent_writes a d =
     d\<lparr>tasks := tasks d @ others a, task_seq := task_seq d + int (length (others a)),
       users := users d @ other_users a,
       user_seq := user_seq d + int (length (other_users a))\<rparr>"

definition session_add :: "db \<Rightarrow> db" where
  "session_add d = d\<lparr>log := log d @ [Add]\<rparr>"

definition session_rollback :: "db \<Rightarrow> db" where
  "session_rollback d = d\<lparr>log := log d @ [Rollback]\<rparr>"

text \<open>
  An INSERT that a constraint rejects has drawn its id from the sequence already, and a
  rollback does not give it back; a value that does not fit its column is refused before
  that.
\<close>

definition task_seq_after_reject :: "db_error \<Rightarrow> task \<Rightarrow> db \<Rightarrow> db" where
  "task_seq_after_reject e t d =
     (case e of
        IntegrityError v \<Rightarrow> (if t_id t = None then d\<lparr>task_seq := task_seq d + 1\<rparr> else d)
      | DataError c \<Rightarrow> d)"

text \<open>
  \<open>db.session.commit()\<close> with one pending \<open>Task\<close>. The result is the exception raised or
  the refreshed object, and the store in either case.
\<close>

definition session_commit_task ::
  "(string \<Rightarrow> string) \<Rightarrow> attempt \<Rightarrow> db \<Rightarrow> task \<Rightarrow> (db_error + task) \<times> db" where
  "session_commit_task slugify a d t =
     (let d1 = concurrent_writes a d in
      case insert_task slugify (utcnow a) d1 t of
        Inl e \<Rightarrow> (Inl e, (task_seq_after_reject e t d1)\<lparr>log := log d1 @ [Commit (Some e)]\<rparr>)
      | Inr (d2, t') \<Rightarrow> (Inr t', d2\<lparr>log := log d2 @ [Commit None]\<rparr>))"

text \<open>The first statement of \<open>Task.save\<close>: \<open>if not self.slug: self.slug = ...\<close>\<close>

definition ensure_slug :: "(string \<Rightarrow> string) \<Rightarrow> db \<Rightarrow> task \<Rightarrow> task" where
  "ensure_slug slugify d self =
     (if falsy_str (t_slug self)
      then self\<lparr>t_slug := Some (generate_unique_slug slugify d self)\<rparr>
      else self)"

text \<open>
  \<open>Task.save\<close>: only \<open>IntegrityError\<close> is caught, and only around the first commit.
  \<open>a1\<close> and \<open>a2\<close> are the world at the first and at the second commit.
\<close>

definition task_save ::
  "(string \<Rightarrow> string) \<Rightarrow> attempt \<Rightarrow> attempt \<Rightarrow> db \<Rightarrow> task \<Rightarrow> (db_error + task) \<times> db" where
  "task_save slugify a1 a2 d self =
     (let self1 = ensure_slug slugify d self;
          d1 = session_add d
      in case session_commit_task slugify a1 d1 self1 of
           (Inr t, d2) \<Rightarrow> (Inr t, d2)
         | (Inl (DataError c), d2) \<Rightarrow> (Inl (DataError c), d2)
         | (Inl (IntegrityError v), d2) \<Rightarrow>
             (let d3 = session_rollback d2;
                  self2 = self1\<lparr>t_slug := Some (generate_unique_slug slugify d3 self1)\<rparr>;
                  d4 = session_add d3
              in session_commit_task slugify a2 d4 self2))"

text \<open>\<open>Task.get_by_slug\<close> is \<open>get_by_slug\<close> above.\<close>


text \<open>Number of commit attempts in a trace.\<close>

definition commits :: "event list \<Rightarrow> nat" where
  "commits es = length (filter (\<lambda>e. case e of Commit r \<Rightarrow> True | _ \<Rightarrow> False) es)"

section \<open>Users\<close>

text \<open>
  \<open>User.set_password\<close> and \<open>User.check_password\<close>. \<open>generate_password_hash\<close> and
  \<open>check_password_hash\<close> are functions of Werkzeug, parameters here; the verifier gets
  the attribute as it is and may raise.
\<close>

definition set_password :: "(string \<Rightarrow> string) \<Rightarrow> user \<Rightarrow> string \<Rightarrow> user" where
  "set_password generate_password_hash self password =
     self\<lparr>u_password_hash := Some (generate_password_hash password)\<rparr>"

definition check_password :: "(string option \<Rightarrow> string \<Rightarrow> 'e + bool) \<Rightarrow> user \<Rightarrow> string \<Rightarrow> 'e + bool" where
  "check_password check_password_hash self password =
     check_password_hash (u_password_hash self) password"

definition user_defaults :: "int \<Rightarrow> db \<Rightarrow> user \<Rightarrow> user" where
  "user_defaults now d u =
     u\<lparr>u_id := Some (case u_id u of None \<Rightarrow> user_seq d | Some i \<Rightarrow> i),
       u_created_at := Some (case u_created_at u of None \<Rightarrow> now | Some c \<Rightarrow> c)\<rparr>"

text \<open>
  The flush of one pending \<open>User\<close>, with what the column declarations give the \<open>users\<close>
  table, in the same order as for tasks.
\<close>

definition insert_user :: "int \<Rightarrow> db \<Rightarrow> user \<Rightarrow> db_error + (db \<times> user)" where
  "insert_user now d self =
     (let u = user_defaults now d self in
      if \<not> int4 (u_id u) then Inl (DataError ''id'')
      else if 120 < length (u_name u) then Inl (DataError ''name'')
      else if 255 < length (u_email u) then Inl (DataError ''email'')
      else if (case u_password_hash u of None \<Rightarrow> False | Some h \<Rightarrow> 255 < length h)
        then Inl (DataError ''password_hash'')
      else case u_password_hash u of
        None \<Rightarrow> Inl (IntegrityError (NotNullViolation ''password_hash''))
      | Some h \<Rightarrow>
          if find (\<lambda>r. u_id r = u_id u) (users d) \<noteq> None
            then Inl (IntegrityError (UniqueViolation ''id''))
          else if get_by_email d (u_email u) \<noteq> None
            then Inl (IntegrityError (UniqueViolation ''email''))
          else Inr (d\<lparr>users := users d @ [u],
                      user_seq := (if u_id self = None then user_seq d + 1 else user_seq d)\<rparr>, u))"

definition user_seq_after_reject :: "db_error \<Rightarrow> user \<Rightarrow> db \<Rightarrow> db" where
  "user_seq_after_reject e u d =
     (case e of
        IntegrityError v \<Rightarrow> (if u_id u = None then d\<lparr>user_seq := user_seq d + 1\<rparr> else d)
      | DataError c \<Rightarrow> d)"

definition session_commit_user :: "int \<Rightarrow> db \<Rightarrow> user \<Rightarrow> (db_error + user) \<times> db" where
  "session_commit_user now d u =
     (case insert_user now d u of
        Inl e \<Rightarrow> (Inl e, (user_seq_after_reject e u d)\<lparr>log := log d @ [Commit (Some e)]\<rparr>)
      | Inr (d2, u') \<Rightarrow> (Inr u', d2\<lparr>log := log d2 @ [Commit None]\<rparr>))"

text \<open>\<open>User.save\<close>: add and commit, nothing caught.\<close>

definition user_save :: "int \<Rightarrow> db \<Rightarrow> user \<Rightarrow> (db_error + user) \<times> db" where
  "user_save now d self = session_commit_user now (session_add d) self"

section \<open>Routes (run.py)\<close>

record signup_form =
  sf_name :: string
  sf_email :: string
  sf_password :: string

text \<open>
  What the route reads from the request besides the form: \<open>current_user.is_authenticated\<close>
  and the result of \<open>form.validate_on_submit()\<close> (Flask-WTF, not part of the repository).
\<close>

record request =
  is_authenticated :: bool
  validate_on_submit :: bool

datatype response = Redirect string | Render string

text \<open>What a route did: its response, the user given to \<open>login_user\<close>, the messages flashed.\<close>

record outcome =
  resp :: response
  login_user :: "user option"
  flashed :: "(string \<times> string) list"

text \<open>The \<open>signup\<close> view.\<close>

definition signup ::
  "(string \<Rightarrow> string) \<Rightarrow> int \<Rightarrow> db \<Rightarrow> request \<Rightarrow> signup_form \<Rightarrow> (db_error + outcome) \<times> db" where
  "signup generate_password_hash now d req form =
     (if is_authenticated req
      then (Inr \<lparr>resp = Redirect ''index'', login_user = None, flashed = []\<rparr>, d)
      else if validate_on_submit req
      then (case get_by_email d (lower (strip (sf_email form))) of
              Some existing \<Rightarrow>
                (Inr \<lparr>resp = Render ''admin/signup_form.html'', login_user = None,
                      flashed = [(''Email is already registered'', ''error'')]\<rparr>, d)
            | None \<Rightarrow>
                (let user = \<lparr>u_id = None, u_name = strip (sf_name form),
                             u_email = lower (strip (sf_email form)),
                             u_password_hash = None, u_created_at = None\<rparr>;
                     user = set_password generate_password_hash user (sf_password form)
                 in case user_save now d user of
                      (Inl e, d') \<Rightarrow> (Inl e, d')
                    | (Inr u, d') \<Rightarrow>
                        (Inr \<lparr>resp = Redirect ''index'', login_user = Some u,
                              flashed = [(''Welcome! Your account has been created.'', ''success'')]\<rparr>,
                         d')))
      else (Inr \<lparr>resp = Render ''admin/signup_form.html'', login_user = None, flashed = []\<rparr>, d))"

text \<open>
  The credential check of the \<open>login\<close> view (the lookup and the test
  \<open>not user or not user.check_password(...)\<close>): the user to log in, if any.
\<close>

definition login_credentials ::
  "(string option \<Rightarrow> string \<Rightarrow> 'e + bool) \<Rightarrow> db \<Rightarrow> string \<Rightarrow> string \<Rightarrow> 'e + user option" where
  "login_credentials check_password_hash d email password =
     (case get_by_email d (lower (strip email)) of
        None \<Rightarrow> Inr None
      | Some user \<Rightarrow>
          (case check_password check_password_hash user password of
             Inl e \<Rightarrow> Inl e
           | Inr ok \<Rightarrow> Inr (if ok then Some user else None)))"

section \<open>Example data\<close>

text \<open>
  A stand-in for \<open>slugify\<close> on plain ASCII titles (lowercase, blanks to hyphens), one
  user and some task rows. They are used only to run the theorems below on concrete
  inputs.
\<close>

definition demo_slugify :: "string \<Rightarrow> string" where
  "demo_slugify s = map (\<lambda>c. if c = CHR '' '' then CHR ''-'' else lower_char c) (strip s)"

definition demo_task :: "string \<Rightarrow> task" where
  "demo_task ttl = \<lparr>t_id = None, t_user_id = Some 1, t_title = ttl, t_description = None,
     t_due_date = None, t_priority = None, t_completed = None, t_slug = None,
     t_created_at = None\<rparr>"

definition demo_row :: "int \<Rightarrow> string \<Rightarrow> string \<Rightarrow> int \<Rightarrow> task" where
  "demo_row i ttl s ts = \<lparr>t_id = Some i, t_user_id = Some 1, t_title = ttl, t_description = None,
     t_due_date = None, t_priority = Some 3, t_completed = Some False, t_slug = Some s,
     t_created_at = Some ts\<rparr>"

definition demo_user :: user where
  "demo_user = \<lparr>u_id = Some 1, u_name = ''Ann'', u_email = ''ann@example.com'',
     u_password_hash = Some ''h'', u_created_at = Some 0\<rparr>"

definition demo_db :: "task list \<Rightarrow> db" where
  "demo_db rows = \<lparr>users = [demo_user], tasks = rows, user_seq = 2,
     task_seq = 1 + int (length rows), log = []\<rparr>"

definition demo_rows2 :: "task list" where
  "demo_rows2 = [demo_row 1 ''Buy milk'' ''buy-milk'' 10, demo_row 2 ''Buy milk'' ''buy-milk-1'' 20]"


text \<open>An attempt with no concurrent writer, and one where another session wrote a row.\<close>

definition quiet :: "int \<Rightarrow> attempt" where
  "quiet ts = \<lparr>others = [], other_users = [], utcnow = ts\<rparr>"

definition racing :: "task \<Rightarrow> int \<Rightarrow> attempt" where
  "racing row ts = \<lparr>others = [row], other_users = [], utcnow = ts\<rparr>"

text \<open>
  Two racing attempts, a task whose owner does not exist, an attempt before which that
  owner was stored by another session, and a second account with an e-mail address that
  is taken.
\<close>

definition race_a1 :: attempt where
  "race_a1 = racing (demo_row 3 ''Buy milk'' ''buy-milk-2'' 25) 30"

definition race_a2 :: attempt where
  "race_a2 = racing (demo_row 4 ''Buy milk'' ''buy-milk-3'' 26) 31"

definition orphan_task :: task where
  "orphan_task = (demo_task ''Buy milk'')\<lparr>t_user_id := Some 7\<rparr>"

definition late_owner :: attempt where
  "late_owner = \<lparr>others = [],
     other_users = [\<lparr>u_id = Some 7, u_name = ''Cy'', u_email = ''cy@example.com'',
       u_password_hash = Some ''h7'', u_created_at = Some 30\<rparr>],
     utcnow = 31\<rparr>"

definition ann_again :: user where
  "ann_again = \<lparr>u_id = None, u_name = ''Ann B'', u_email = ''ann@example.com'',
     u_password_hash = Some ''h2'', u_created_at = None\<rparr>"

text \<open>A stand-in for the password hash, an anonymous POST that validates, and a signup.\<close>

definition demo_hash :: "string \<Rightarrow> string" where
  "demo_hash p = ''demo$'' @ rev p"

definition post_anonymous :: request where
  "post_anonymous = \<lparr>is_authenticated = False, validate_on_submit = True\<rparr>"

definition bea_form :: signup_form where
  "bea_form = \<lparr>sf_name = '' Bea '', sf_email = ''A@B.com'', sf_password = ''secret1''\<rparr>"

definition bea :: user where
  "bea = \<lparr>u_id = Some 2, u_name = ''Bea'', u_email = ''a@b.com'',
     u_password_hash = Some ''demo$1terces'', u_created_at = Some 50\<rparr>"



section \<open>The slug loop\<close>

lemma slug_loop_free: "get_by_slug d cand = None \<Longrightarrow> slug_loop d base cand c = cand"
  by (subst slug_loop.simps) simp

lemma slug_loop_taken:
  "get_by_slug d cand \<noteq> None \<Longrightarrow> slug_loop d base cand c = slug_loop d base (suffixed base c) (c + 1)"
  by (subst slug_loop.simps) (simp del: not_None_eq)

lemma slug_loop_run:
  assumes "get_by_slug d cand \<noteq> None"
    and "c \<le> N"
    and "\<And>k. c \<le> k \<Longrightarrow> k < N \<Longrightarrow> get_by_slug d (suffixed base k) \<noteq> None"
    and "get_by_slug d (suffixed base N) = None"
  shows "slug_loop d base cand c = suffixed base N"
  using assms
proof (induction "N - c" arbitrary: c cand)
  case 0
  then have "c = N" by simp
  with 0 show ?case
    by (simp add: slug_loop_taken slug_loop_free del: not_None_eq)
next
  case (Suc n)
  then have lt: "c < N" by simp
  have "slug_loop d base cand c = slug_loop d base (suffixed base c) (c + 1)"
    using Suc.prems(1) by (rule slug_loop_taken)
  also have "\<dots> = suffixed base N"
  proof (rule Suc.hyps(1))
    show "n = N - (c + 1)" using Suc.hyps(2) by simp
    show "get_by_slug d (suffixed base c) \<noteq> None" using Suc.prems(3) lt by simp
    show "c + 1 \<le> N" using lt by simp
    show "get_by_slug d (suffixed base k) \<noteq> None" if "c + 1 \<le> k" "k < N" for k
      using Suc.prems(3) that by simp
    show "get_by_slug d (suffixed base N) = None" by (rule Suc.prems(4))
  qed
  finally show ?case .
qed



text \<open>
  Claim C3. For every title whose slugified token is non-empty: if no task of the table
  has that token as its slug, \<open>_generate_unique_slug\<close> returns the token itself, without a
  numeric suffix.
\<close>

theorem generate_unique_slug_unused:
  assumes "slugify (t_title self) \<noteq> []"
    and "get_by_slug d (slugify (t_title self)) = None"
  shows "generate_unique_slug slugify d self = slugify (t_title self)"
  using assms by (simp add: generate_unique_slug_def slug_loop_free)

theorem generate_unique_slug_unused_witness:
  "demo_slugify (t_title (demo_task ''Buy milk'')) \<noteq> [] \<and>
   get_by_slug (demo_db [demo_row 1 ''Call Bob'' ''call-bob'' 10])
     (demo_slugify (t_title (demo_task ''Buy milk''))) = None \<and>
   generate_unique_slug demo_slugify (demo_db [demo_row 1 ''Call Bob'' ''call-bob'' 10])
     (demo_task ''Buy milk'') = ''buy-milk''"
proof -
  have s: "demo_slugify (t_title (demo_task ''Buy milk'')) = ''buy-milk''"
    by code_simp
  have f: "get_by_slug (demo_db [demo_row 1 ''Call Bob'' ''call-bob'' 10]) ''buy-milk'' = None"
    by code_simp
  show ?thesis
    using generate_unique_slug_unused [of demo_slugify "demo_task ''Buy milk''"
        "demo_db [demo_row 1 ''Call Bob'' ''call-bob'' 10]"]
    by (simp add: s f)
qed


text \<open>
  Claim C2. For every title whose slugified token is \<open>base\<close> (a token, so not empty;
  the empty case takes the fallback base instead): if the \<open>N\<close> slugs \<open>base\<close>, \<open>base-1\<close>,
  ..., \<open>base-(N-1)\<close> exist in the table and \<open>base-N\<close> does not, \<open>_generate_unique_slug\<close>
  returns \<open>base-N\<close>.
\<close>

theorem generate_unique_slug_suffix:
  assumes "slugify (t_title self) = base"
    and "base \<noteq> []"
    and "0 < N"
    and "get_by_slug d base \<noteq> None"
    and "\<forall>k. 1 \<le> k \<and> k < N \<longrightarrow> get_by_slug d (suffixed base k) \<noteq> None"
    and "get_by_slug d (suffixed base N) = None"
  shows "generate_unique_slug slugify d self = suffixed base N"
proof -
  have "slug_loop d base base 1 = suffixed base N"
    using assms(3-6) by (intro slug_loop_run) (simp_all del: not_None_eq)
  with assms(1,2) show ?thesis
    by (simp add: generate_unique_slug_def)
qed

theorem generate_unique_slug_suffix_witness:
  "demo_slugify (t_title (demo_task ''Buy milk'')) = ''buy-milk'' \<and>
   get_by_slug (demo_db demo_rows2) ''buy-milk'' \<noteq> None \<and>
   get_by_slug (demo_db demo_rows2) (suffixed ''buy-milk'' 1) \<noteq> None \<and>
   get_by_slug (demo_db demo_rows2) (suffixed ''buy-milk'' 2) = None \<and>
   generate_unique_slug demo_slugify (demo_db demo_rows2) (demo_task ''Buy milk'') = ''buy-milk-2''"
proof -
  have s: "demo_slugify (t_title (demo_task ''Buy milk'')) = ''buy-milk''"
    by code_simp
  have e0: "get_by_slug (demo_db demo_rows2) ''buy-milk'' \<noteq> None"
    by code_simp
  have e1: "get_by_slug (demo_db demo_rows2) (suffixed ''buy-milk'' 1) \<noteq> None"
    by code_simp
  have e2: "get_by_slug (demo_db demo_rows2) (suffixed ''buy-milk'' 2) = None"
    by code_simp
  have all: "\<forall>k. 1 \<le> k \<and> k < (2::nat) \<longrightarrow>
      get_by_slug (demo_db demo_rows2) (suffixed ''buy-milk'' k) \<noteq> None"
  proof (intro allI impI)
    fix k :: nat assume "1 \<le> k \<and> k < 2"
    then have "k = 1" by simp
    with e1 show "get_by_slug (demo_db demo_rows2) (suffixed ''buy-milk'' k) \<noteq> None"
      by simp
  qed
  have n: "suffixed ''buy-milk'' 2 = ''buy-milk-2''"
    by code_simp
  have "generate_unique_slug demo_slugify (demo_db demo_rows2) (demo_task ''Buy milk'')
      = suffixed ''buy-milk'' 2"
    using s e0 all e2 by (intro generate_unique_slug_suffix) simp_all
  with s e0 e1 e2 n show ?thesis by simp
qed

section \<open>Saving a task\<close>

lemma find_snoc_fresh: "find P xs = None \<Longrightarrow> find P (xs @ [x]) = (if P x then Some x else None)"
  by (induction xs) (auto split: if_splits)

lemma hook_slug_nonempty: "\<not> falsy_str (t_slug (task_before_insert slugify target))"
  by (simp add: task_before_insert_def falsy_str_def Let_def)

lemma insert_task_Inr:
  assumes "insert_task slugify now d target = Inr (d', t)"
  shows "\<exists>s. t_slug t = Some s \<and> s \<noteq> [] \<and> get_by_slug d s = None \<and> tasks d' = tasks d @ [t]
     \<and> users d' = users d \<and> log d' = log d"
proof -
  define t1 where "t1 = task_defaults now d (task_before_insert slugify target)"
  have nf: "\<not> falsy_str (t_slug t1)"
    using hook_slug_nonempty [of slugify target] by (simp add: t1_def task_defaults_def)
  from assms show ?thesis
    using nf unfolding insert_task_def t1_def [symmetric] Let_def
    by (auto simp: falsy_str_def split: option.splits if_splits)
qed

lemma session_commit_task_Inr:
  assumes "session_commit_task slugify a d x = (Inr t, d')"
  shows "\<exists>s. t_slug t = Some s \<and> s \<noteq> [] \<and> get_by_slug d' s = Some t"
proof -
  define d1 where "d1 = concurrent_writes a d"
  from assms obtain d2 where ins: "insert_task slugify (utcnow a) d1 x = Inr (d2, t)"
    and d': "d' = d2\<lparr>log := log d2 @ [Commit None]\<rparr>"
    unfolding session_commit_task_def d1_def [symmetric] Let_def
    by (auto split: sum.splits prod.splits)
  from insert_task_Inr [OF ins] obtain s where s: "t_slug t = Some s" "s \<noteq> []"
    "get_by_slug d1 s = None" "tasks d2 = tasks d1 @ [t]"
    by blast
  have "get_by_slug d' s = Some t"
    using s find_snoc_fresh [of "\<lambda>t. t_slug t = Some s" "tasks d1" t]
    by (simp add: get_by_slug_def d')
  with s show ?thesis by blast
qed

lemma task_save_cases:
  "task_save slugify a1 a2 d self =
     (case session_commit_task slugify a1 (session_add d) (ensure_slug slugify d self) of
        (Inr t, d2) \<Rightarrow> (Inr t, d2)
      | (Inl (DataError c), d2) \<Rightarrow> (Inl (DataError c), d2)
      | (Inl (IntegrityError v), d2) \<Rightarrow>
          session_commit_task slugify a2 (session_add (session_rollback d2))
            ((ensure_slug slugify d self)
               \<lparr>t_slug := Some (generate_unique_slug slugify (session_rollback d2)
                                 (ensure_slug slugify d self))\<rparr>))"
  by (simp add: task_save_def Let_def split: prod.splits sum.splits db_error.splits)

lemma task_save_Inr:
  assumes "task_save slugify a1 a2 d self = (Inr t, d')"
  shows "\<exists>s. t_slug t = Some s \<and> s \<noteq> [] \<and> get_by_slug d' s = Some t"
proof (cases "session_commit_task slugify a1 (session_add d) (ensure_slug slugify d self)")
  case (Pair r d2)
  show ?thesis
  proof (cases r)
    case (Inr t1)
    with Pair assms have "session_commit_task slugify a1 (session_add d) (ensure_slug slugify d self) = (Inr t, d')"
      by (simp add: task_save_cases)
    then show ?thesis by (rule session_commit_task_Inr)
  next
    case (Inl e)
    show ?thesis
    proof (cases e)
      case (DataError c)
      with Pair Inl assms show ?thesis by (simp add: task_save_cases)
    next
      case (IntegrityError v)
      with Pair Inl assms have "session_commit_task slugify a2 (session_add (session_rollback d2))
            ((ensure_slug slugify d self)
               \<lparr>t_slug := Some (generate_unique_slug slugify (session_rollback d2)
                                 (ensure_slug slugify d self))\<rparr>) = (Inr t, d')"
        by (simp add: task_save_cases)
      then show ?thesis by (rule session_commit_task_Inr)
    qed
  qed
qed

text \<open>
  Claim C6. For every task persisted via \<open>Task.save\<close> (on the first commit or on the
  retried one): \<open>Task.get_by_slug\<close> with the slug that the save assigned, on the store as
  the save left it, returns that same task.
\<close>

theorem get_by_slug_after_save:
  assumes "fst (task_save slugify a1 a2 d self) = Inr t"
  shows "\<exists>s. t_slug t = Some s \<and> s \<noteq> [] \<and>
    get_by_slug (snd (task_save slugify a1 a2 d self)) s = Some t"
  using assms task_save_Inr [of slugify a1 a2 d self t "snd (task_save slugify a1 a2 d self)"]
  by (metis prod.collapse)

theorem get_by_slug_after_save_witness:
  "fst (task_save demo_slugify (racing (demo_row 3 ''Buy milk'' ''buy-milk-2'' 25) 30) (quiet 31)
          (demo_db demo_rows2) (demo_task ''Buy milk''))
     = Inr ((demo_row 5 ''Buy milk'' ''buy-milk-3'' 31)) \<and>
   get_by_slug (snd (task_save demo_slugify (racing (demo_row 3 ''Buy milk'' ''buy-milk-2'' 25) 30)
          (quiet 31) (demo_db demo_rows2) (demo_task ''Buy milk''))) ''buy-milk-3''
     = Some (demo_row 5 ''Buy milk'' ''buy-milk-3'' 31)"
proof -
  have h: "fst (task_save demo_slugify (racing (demo_row 3 ''Buy milk'' ''buy-milk-2'' 25) 30) (quiet 31)
          (demo_db demo_rows2) (demo_task ''Buy milk''))
     = Inr ((demo_row 5 ''Buy milk'' ''buy-milk-3'' 31))"
    by code_simp
  have s: "t_slug (demo_row 5 ''Buy milk'' ''buy-milk-3'' 31) = Some ''buy-milk-3''"
    by (simp add: demo_row_def)
  from get_by_slug_after_save [OF h] s h show ?thesis
    by auto
qed

lemma insert_task_slug_taken:
  assumes "t_slug (task_before_insert slugify target) = Some s"
    and "get_by_slug d s \<noteq> None"
  shows "\<exists>e. insert_task slugify ts d target = Inl e"
proof (cases "insert_task slugify ts d target")
  case (Inl e)
  then show ?thesis by blast
next
  case (Inr r)
  obtain d' t where "r = (d', t)" by (cases r)
  with Inr have ok: "insert_task slugify ts d target = Inr (d', t)" by simp
  then have "t_slug t = t_slug (task_before_insert slugify target)"
    by (auto simp: insert_task_def Let_def task_defaults_def split: option.splits if_splits)
  with insert_task_Inr [OF ok] assms show ?thesis by auto
qed

text \<open>
  Claim C10. For a task inserted directly through the session, the \<open>before_insert\<close> hook
  assigns \<open>slugify(title)\<close>, or the literal \<open>task\<close> when that is empty, to a missing slug
  and keeps a slug that is set; no suffix is appended and the table is not read (the hook
  does not take it). So every inserted task has a non-empty slug, but the slug may be
  taken: then the INSERT is rejected by the store.
\<close>

theorem task_before_insert_slug:
  "t_slug (task_before_insert slugify target) =
     (if falsy_str (t_slug target)
      then Some (if slugify (t_title target) = [] then ''task'' else slugify (t_title target))
      else t_slug target) \<and>
   \<not> falsy_str (t_slug (task_before_insert slugify target)) \<and>
   (\<forall>s. t_slug (task_before_insert slugify target) = Some s \<and> get_by_slug d s \<noteq> None \<longrightarrow>
      (\<exists>e. insert_task slugify ts d target = Inl e))"
proof (intro conjI allI impI)
  show "t_slug (task_before_insert slugify target) =
     (if falsy_str (t_slug target)
      then Some (if slugify (t_title target) = [] then ''task'' else slugify (t_title target))
      else t_slug target)"
    by (simp add: task_before_insert_def Let_def)
  show "\<not> falsy_str (t_slug (task_before_insert slugify target))"
    by (rule hook_slug_nonempty)
  show "\<exists>e. insert_task slugify ts d target = Inl e"
    if "t_slug (task_before_insert slugify target) = Some s \<and> get_by_slug d s \<noteq> None" for s
    using that insert_task_slug_taken by blast
qed

theorem task_before_insert_slug_witness:
  "t_slug (task_before_insert demo_slugify (demo_task ''Buy milk'')) = Some ''buy-milk'' \<and>
   get_by_slug (demo_db demo_rows2) ''buy-milk'' \<noteq> None \<and>
   insert_task demo_slugify 30 (demo_db demo_rows2) (demo_task ''Buy milk'')
     = Inl (IntegrityError (UniqueViolation ''slug'')) \<and>
   t_slug (task_before_insert demo_slugify (demo_task ''  '')) = Some ''task''"
proof -
  have f: "falsy_str (t_slug (demo_task ''Buy milk''))" "falsy_str (t_slug (demo_task ''  ''))"
    by code_simp+
  have s: "demo_slugify (t_title (demo_task ''Buy milk'')) = ''buy-milk''"
    "demo_slugify (t_title (demo_task ''  '')) = []"
    by code_simp+
  have taken: "get_by_slug (demo_db demo_rows2) ''buy-milk'' \<noteq> None"
    by code_simp
  have hook: "t_slug (task_before_insert demo_slugify (demo_task ''Buy milk'')) = Some ''buy-milk''"
    using task_before_insert_slug [of demo_slugify "demo_task ''Buy milk''"] f s by simp
  have hook2: "t_slug (task_before_insert demo_slugify (demo_task ''  '')) = Some ''task''"
    using task_before_insert_slug [of demo_slugify "demo_task ''  ''"] f s by simp
  have "\<exists>e. insert_task demo_slugify 30 (demo_db demo_rows2) (demo_task ''Buy milk'') = Inl e"
    using task_before_insert_slug [of demo_slugify "demo_task ''Buy milk''" "demo_db demo_rows2" 30]
      hook taken by blast
  moreover have "insert_task demo_slugify 30 (demo_db demo_rows2) (demo_task ''Buy milk'')
     = Inl (IntegrityError (UniqueViolation ''slug''))"
    by code_simp
  ultimately show ?thesis using hook hook2 taken by simp
qed

lemma log_concurrent_writes: "log (concurrent_writes a d) = log d"
  by (simp add: concurrent_writes_def)

lemma users_concurrent_writes: "users (concurrent_writes a d) = users d @ other_users a"
  by (simp add: concurrent_writes_def)

lemma log_task_seq_after_reject: "log (task_seq_after_reject e t d) = log d"
  by (simp add: task_seq_after_reject_def split: db_error.splits)

lemma users_task_seq_after_reject: "users (task_seq_after_reject e t d) = users d"
  by (simp add: task_seq_after_reject_def split: db_error.splits)

lemma session_commit_task_log:
  "log (snd (session_commit_task slugify a d x)) =
     log d @ [Commit (case fst (session_commit_task slugify a d x) of Inl e \<Rightarrow> Some e | Inr t \<Rightarrow> None)]"
proof (cases "insert_task slugify (utcnow a) (concurrent_writes a d) x")
  case (Inl e)
  then show ?thesis
    by (simp add: session_commit_task_def Let_def log_concurrent_writes
        log_task_seq_after_reject)
next
  case (Inr r)
  obtain d2 t where r: "r = (d2, t)" by (cases r)
  with Inr insert_task_Inr [of slugify "utcnow a" "concurrent_writes a d" x d2 t]
  have "log d2 = log d" by (auto simp: log_concurrent_writes)
  with Inr r show ?thesis
    by (simp add: session_commit_task_def Let_def)
qed

lemma commits_append: "commits (xs @ ys) = commits xs + commits ys"
  by (simp add: commits_def)

lemma commits_simps:
  "commits [] = 0" "commits (Add # es) = commits es" "commits (Rollback # es) = commits es"
  "commits (Commit r # es) = Suc (commits es)"
  by (simp_all add: commits_def)

lemma session_commit_task_first_log:
  assumes "fst (session_commit_task slugify a d x) = Inl e"
  shows "log (snd (session_commit_task slugify a d x)) = log d @ [Commit (Some e)]"
  using session_commit_task_log [of slugify a d x] assms by simp

text \<open>What \<open>Task.save\<close> does after an \<open>IntegrityError\<close> of the first commit.\<close>

lemma task_save_after_integrity_error:
  assumes "fst (session_commit_task slugify a1 (session_add d) (ensure_slug slugify d self))
      = Inl (IntegrityError v)"
  shows "task_save slugify a1 a2 d self =
     session_commit_task slugify a2
       (session_add (session_rollback
          (snd (session_commit_task slugify a1 (session_add d) (ensure_slug slugify d self)))))
       ((ensure_slug slugify d self)
          \<lparr>t_slug := Some (generate_unique_slug slugify
             (session_rollback
                (snd (session_commit_task slugify a1 (session_add d) (ensure_slug slugify d self))))
             (ensure_slug slugify d self))\<rparr>)"
  using assms
  by (cases "session_commit_task slugify a1 (session_add d) (ensure_slug slugify d self)")
    (simp add: task_save_cases)

lemma task_save_retry_log:
  assumes "fst (session_commit_task slugify a1 (session_add d) (ensure_slug slugify d self))
      = Inl (IntegrityError v)"
  shows "log (snd (task_save slugify a1 a2 d self)) =
     log d @ [Add, Commit (Some (IntegrityError v)), Rollback, Add,
       Commit (case fst (task_save slugify a1 a2 d self) of Inl e \<Rightarrow> Some e | Inr t \<Rightarrow> None)]"
proof -
  let ?first = "session_commit_task slugify a1 (session_add d) (ensure_slug slugify d self)"
  have "log (snd ?first) = log (session_add d) @ [Commit (Some (IntegrityError v))]"
    using assms by (rule session_commit_task_first_log)
  then have "log (session_add (session_rollback (snd ?first))) =
      log d @ [Add, Commit (Some (IntegrityError v)), Rollback, Add]"
    by (simp add: session_add_def session_rollback_def)
  then show ?thesis
    unfolding task_save_after_integrity_error [OF assms]
    by (simp add: session_commit_task_log)
qed

text \<open>What \<open>Task.save\<close> does when the first commit raises no \<open>IntegrityError\<close>.\<close>

lemma task_save_no_retry:
  assumes "\<forall>v. fst (session_commit_task slugify a1 (session_add d) (ensure_slug slugify d self))
      \<noteq> Inl (IntegrityError v)"
  shows "task_save slugify a1 a2 d self =
     session_commit_task slugify a1 (session_add d) (ensure_slug slugify d self)"
  using assms
  by (cases "session_commit_task slugify a1 (session_add d) (ensure_slug slugify d self)")
    (auto simp: task_save_cases split: sum.splits db_error.splits)

text \<open>
  Claim C1. If the first commit of \<open>Task.save\<close> fails on the uniqueness of the slug, the
  session is rolled back, the slug is generated again on the store as it then is, and the
  commit is tried exactly once more: the result of \<open>Task.save\<close> is the result of that
  second commit, error or not, and the trace is add, failed commit, rollback, add, commit.
\<close>

theorem task_save_retries_once:
  assumes "fst (session_commit_task slugify a1 (session_add d) (ensure_slug slugify d self))
      = Inl (IntegrityError (UniqueViolation ''slug''))"
  shows "(let d3 = session_rollback
                (snd (session_commit_task slugify a1 (session_add d) (ensure_slug slugify d self)));
              self2 = (ensure_slug slugify d self)
                \<lparr>t_slug := Some (generate_unique_slug slugify d3 (ensure_slug slugify d self))\<rparr>;
              r = task_save slugify a1 a2 d self
          in r = session_commit_task slugify a2 (session_add d3) self2 \<and>
             log (snd r) = log d @ [Add, Commit (Some (IntegrityError (UniqueViolation ''slug''))),
               Rollback, Add, Commit (case fst r of Inl e \<Rightarrow> Some e | Inr t \<Rightarrow> None)] \<and>
             commits (log (snd r)) = commits (log d) + 2)"
proof -
  note run = task_save_after_integrity_error [OF assms, of a2]
  note lg = task_save_retry_log [OF assms, of a2]
  have "commits (log (snd (task_save slugify a1 a2 d self))) = commits (log d) + 2"
    unfolding lg by (simp add: commits_append commits_simps)
  with run lg show ?thesis
    unfolding Let_def by blast
qed

theorem task_save_retries_once_witness:
  "fst (session_commit_task demo_slugify race_a1 (session_add (demo_db demo_rows2))
          (ensure_slug demo_slugify (demo_db demo_rows2) (demo_task ''Buy milk'')))
     = Inl (IntegrityError (UniqueViolation ''slug'')) \<and>
   fst (task_save demo_slugify race_a1 race_a2 (demo_db demo_rows2) (demo_task ''Buy milk''))
     = Inl (IntegrityError (UniqueViolation ''slug'')) \<and>
   log (snd (task_save demo_slugify race_a1 race_a2 (demo_db demo_rows2) (demo_task ''Buy milk'')))
     = [Add, Commit (Some (IntegrityError (UniqueViolation ''slug''))), Rollback, Add,
        Commit (Some (IntegrityError (UniqueViolation ''slug'')))] \<and>
   fst (task_save demo_slugify race_a1 (quiet 31) (demo_db demo_rows2) (demo_task ''Buy milk''))
     = Inr (demo_row 5 ''Buy milk'' ''buy-milk-3'' 31)"
proof -
  have h: "fst (session_commit_task demo_slugify race_a1 (session_add (demo_db demo_rows2))
          (ensure_slug demo_slugify (demo_db demo_rows2) (demo_task ''Buy milk'')))
     = Inl (IntegrityError (UniqueViolation ''slug''))"
    by code_simp
  have r: "fst (task_save demo_slugify race_a1 race_a2 (demo_db demo_rows2) (demo_task ''Buy milk''))
     = Inl (IntegrityError (UniqueViolation ''slug''))"
    by code_simp
  have ok: "fst (task_save demo_slugify race_a1 (quiet 31) (demo_db demo_rows2) (demo_task ''Buy milk''))
     = Inr (demo_row 5 ''Buy milk'' ''buy-milk-3'' 31)"
    by code_simp
  have l0: "log (demo_db demo_rows2) = []"
    by (simp add: demo_db_def)
  have "log (snd (task_save demo_slugify race_a1 race_a2 (demo_db demo_rows2)
        (demo_task ''Buy milk''))) =
      log (demo_db demo_rows2) @ [Add, Commit (Some (IntegrityError (UniqueViolation ''slug''))),
        Rollback, Add,
        Commit (case fst (task_save demo_slugify race_a1 race_a2 (demo_db demo_rows2)
            (demo_task ''Buy milk'')) of Inl e \<Rightarrow> Some e | Inr t \<Rightarrow> None)]"
    using task_save_retries_once [OF h, of race_a2] unfolding Let_def by blast
  with r l0 h ok show ?thesis
    by simp
qed


section \<open>Error propagation\<close>

lemma insert_task_fk:
  assumes "insert_task slugify ts d x = Inl (IntegrityError (ForeignKeyViolation c))"
  shows "find (\<lambda>u. u_id u = t_user_id x) (users d) = None"
proof -
  have "t_user_id (task_defaults ts d (task_before_insert slugify x)) = t_user_id x"
    by (simp add: task_defaults_def task_before_insert_def Let_def)
  with assms show ?thesis
    unfolding insert_task_def Let_def
    by (simp split: option.splits if_splits)
qed

lemma insert_task_no_owner:
  assumes "find (\<lambda>u. u_id u = t_user_id x) (users d) = None"
  shows "\<exists>e. insert_task slugify ts d x = Inl e"
proof -
  have "t_user_id (task_defaults ts d (task_before_insert slugify x)) = t_user_id x"
    by (simp add: task_defaults_def task_before_insert_def Let_def)
  with assms show ?thesis
    unfolding insert_task_def Let_def
    by (simp split: option.splits)
qed

lemma session_commit_task_Inl:
  "fst (session_commit_task slugify a d x) = Inl e \<longleftrightarrow>
     insert_task slugify (utcnow a) (concurrent_writes a d) x = Inl e"
  by (auto simp: session_commit_task_def Let_def split: sum.splits prod.splits)

lemma session_commit_task_users:
  "users (snd (session_commit_task slugify a d x)) = users d @ other_users a"
proof (cases "insert_task slugify (utcnow a) (concurrent_writes a d) x")
  case (Inl e)
  then show ?thesis
    by (simp add: session_commit_task_def Let_def users_concurrent_writes
        users_task_seq_after_reject)
next
  case (Inr r)
  obtain d2 t where r: "r = (d2, t)" by (cases r)
  with Inr insert_task_Inr [of slugify "utcnow a" "concurrent_writes a d" x d2 t]
  have "users d2 = users d @ other_users a" by (auto simp: users_concurrent_writes)
  with Inr r show ?thesis
    by (simp add: session_commit_task_def Let_def)
qed

text \<open>
  After a foreign-key violation the retried commit fails again, unless another session
  has stored a user in between.
\<close>

lemma task_save_fk_fails:
  assumes "fst (session_commit_task slugify a1 (session_add d) (ensure_slug slugify d self))
      = Inl (IntegrityError (ForeignKeyViolation c))"
    and quiet: "other_users a2 = []"
  shows "\<exists>e. fst (task_save slugify a1 a2 d self) = Inl e"
proof -
  let ?self1 = "ensure_slug slugify d self"
  let ?first = "session_commit_task slugify a1 (session_add d) ?self1"
  let ?d4 = "session_add (session_rollback (snd ?first))"
  let ?self2 = "?self1\<lparr>t_slug := Some (generate_unique_slug slugify (session_rollback (snd ?first)) ?self1)\<rparr>"
  have "find (\<lambda>u. u_id u = t_user_id ?self1) (users (concurrent_writes a1 (session_add d))) = None"
    using assms(1) by (intro insert_task_fk) (simp add: session_commit_task_Inl)
  then have "find (\<lambda>u. u_id u = t_user_id ?self2) (users (concurrent_writes a2 ?d4)) = None"
    using quiet
    by (simp add: users_concurrent_writes session_add_def session_rollback_def
        session_commit_task_users)
  then obtain e where "insert_task slugify (utcnow a2) (concurrent_writes a2 ?d4) ?self2 = Inl e"
    using insert_task_no_owner by blast
  then have "fst (session_commit_task slugify a2 ?d4 ?self2) = Inl e"
    by (simp add: session_commit_task_Inl)
  then show ?thesis
    unfolding task_save_after_integrity_error [OF assms(1)] by blast
qed

lemma task_save_data_error:
  assumes "fst (session_commit_task slugify a1 (session_add d) (ensure_slug slugify d self))
      = Inl (DataError c)"
  shows "fst (task_save slugify a1 a2 d self) = Inl (DataError c) \<and>
     log (snd (task_save slugify a1 a2 d self)) = log d @ [Add, Commit (Some (DataError c))]"
proof -
  have "task_save slugify a1 a2 d self =
      session_commit_task slugify a1 (session_add d) (ensure_slug slugify d self)"
    using assms by (intro task_save_no_retry) simp
  with assms session_commit_task_first_log [OF assms] show ?thesis
    by (simp add: session_add_def)
qed

lemma insert_user_Inr:
  "insert_user ts d u = Inr (d', u') \<Longrightarrow> log d' = log d"
  by (auto simp: insert_user_def Let_def split: option.splits if_splits)

lemma insert_user_session_add:
  "insert_user ts (session_add d) u =
     map_sum id (\<lambda>(d', u'). (session_add d', u')) (insert_user ts d u)"
proof -
  have same: "user_defaults ts (session_add d) u = user_defaults ts d u"
    "get_by_email (session_add d) = get_by_email d"
    by (simp_all add: user_defaults_def get_by_email_def fun_eq_iff session_add_def
        split: option.splits)
  show ?thesis
    unfolding insert_user_def Let_def same
    by (auto simp: session_add_def split: option.splits)
qed

lemma log_user_seq_after_reject: "log (user_seq_after_reject e u d) = log d"
  by (simp add: user_seq_after_reject_def split: db_error.splits)

lemma user_save_log:
  "log (snd (user_save ts d u)) =
     log d @ [Add, Commit (case fst (user_save ts d u) of Inl e \<Rightarrow> Some e | Inr u' \<Rightarrow> None)]"
proof (cases "insert_user ts (session_add d) u")
  case (Inl e)
  then show ?thesis
    by (simp add: user_save_def session_commit_user_def session_add_def
        log_user_seq_after_reject)
next
  case (Inr r)
  obtain d2 u' where r: "r = (d2, u')" by (cases r)
  with Inr have "log d2 = log (session_add d)" by (auto dest: insert_user_Inr)
  with Inr r show ?thesis
    by (simp add: user_save_def session_commit_user_def session_add_def)
qed

lemma user_save_error:
  assumes "insert_user ts d u = Inl e"
  shows "fst (user_save ts d u) = Inl e"
  using assms by (simp add: user_save_def session_commit_user_def insert_user_session_add)

text \<open>
  Claim C4, as the code has it. \<open>Task.save\<close> retries once after any \<open>IntegrityError\<close> of
  its first commit, whichever constraint failed; the result of the retried commit is the
  result of the save. After a foreign-key violation it is an error again when no other
  session has stored a user between the two commits. Any other error of the first commit
  propagates at once, with a single commit attempt. \<open>User.save\<close> commits once and every
  error of its INSERT propagates.
\<close>

theorem save_error_propagation:
  "(let first = session_commit_task slugify a1 (session_add d) (ensure_slug slugify d self);
        r = task_save slugify a1 a2 d self
    in (\<forall>v. fst first = Inl (IntegrityError v) \<longrightarrow>
          log (snd r) = log d @ [Add, Commit (Some (IntegrityError v)), Rollback, Add,
            Commit (case fst r of Inl e \<Rightarrow> Some e | Inr t \<Rightarrow> None)]) \<and>
       (\<forall>c. fst first = Inl (IntegrityError (ForeignKeyViolation c)) \<and> other_users a2 = [] \<longrightarrow>
          (\<exists>e. fst r = Inl e)) \<and>
       (\<forall>c. fst first = Inl (DataError c) \<longrightarrow>
          fst r = Inl (DataError c) \<and> log (snd r) = log d @ [Add, Commit (Some (DataError c))])) \<and>
   log (snd (user_save ts d u)) =
     log d @ [Add, Commit (case fst (user_save ts d u) of Inl e \<Rightarrow> Some e | Inr u' \<Rightarrow> None)] \<and>
   (\<forall>e. insert_user ts d u = Inl e \<longrightarrow> fst (user_save ts d u) = Inl e)"
  unfolding Let_def
  using task_save_retry_log [of slugify a1 d self _ a2] task_save_fk_fails [of slugify a1 d self _ a2]
    task_save_data_error [of slugify a1 d self _ a2] user_save_log [of ts d u]
    user_save_error [of ts d u]
  by blast

text \<open>
  Claim C4 as stated fails: a foreign-key violation on \<open>Task.save\<close> is retried. The task
  below names a user that does not exist; the trace shows the rollback and the second
  commit attempt.
\<close>

theorem task_save_fk_retried:
  "fst (session_commit_task demo_slugify (quiet 30) (session_add (demo_db demo_rows2))
          (ensure_slug demo_slugify (demo_db demo_rows2) orphan_task))
     = Inl (IntegrityError (ForeignKeyViolation ''user_id'')) \<and>
   log (snd (task_save demo_slugify (quiet 30) (quiet 31) (demo_db demo_rows2) orphan_task))
     = [Add, Commit (Some (IntegrityError (ForeignKeyViolation ''user_id''))), Rollback, Add,
        Commit (Some (IntegrityError (ForeignKeyViolation ''user_id'')))] \<and>
   commits (log (snd (task_save demo_slugify (quiet 30) (quiet 31) (demo_db demo_rows2) orphan_task)))
     = 2"
  by code_simp

theorem save_error_propagation_witness:
  "fst (session_commit_task demo_slugify (quiet 30) (session_add (demo_db demo_rows2))
          (ensure_slug demo_slugify (demo_db demo_rows2) orphan_task))
     = Inl (IntegrityError (ForeignKeyViolation ''user_id'')) \<and>
   fst (task_save demo_slugify (quiet 30) (quiet 31) (demo_db demo_rows2) orphan_task)
     = Inl (IntegrityError (ForeignKeyViolation ''user_id'')) \<and>
   log (snd (task_save demo_slugify (quiet 30) (quiet 31) (demo_db demo_rows2) orphan_task))
     = [Add, Commit (Some (IntegrityError (ForeignKeyViolation ''user_id''))), Rollback, Add,
        Commit (Some (IntegrityError (ForeignKeyViolation ''user_id'')))] \<and>
   insert_user 40 (demo_db demo_rows2) ann_again = Inl (IntegrityError (UniqueViolation ''email'')) \<and>
   fst (user_save 40 (demo_db demo_rows2) ann_again) = Inl (IntegrityError (UniqueViolation ''email'')) \<and>
   log (snd (user_save 40 (demo_db demo_rows2) ann_again))
     = [Add, Commit (Some (IntegrityError (UniqueViolation ''email'')))] \<and>
   fst (task_save demo_slugify (quiet 30) late_owner (demo_db demo_rows2) orphan_task)
     = Inr ((demo_row 4 ''Buy milk'' ''buy-milk-2'' 31)\<lparr>t_user_id := Some 7\<rparr>) \<and>
   log (snd (task_save demo_slugify (quiet 30) late_owner (demo_db demo_rows2) orphan_task))
     = [Add, Commit (Some (IntegrityError (ForeignKeyViolation ''user_id''))), Rollback, Add,
        Commit None]"
proof -
  have h: "fst (session_commit_task demo_slugify (quiet 30) (session_add (demo_db demo_rows2))
          (ensure_slug demo_slugify (demo_db demo_rows2) orphan_task))
     = Inl (IntegrityError (ForeignKeyViolation ''user_id''))"
    by code_simp
  have r: "fst (task_save demo_slugify (quiet 30) (quiet 31) (demo_db demo_rows2) orphan_task)
     = Inl (IntegrityError (ForeignKeyViolation ''user_id''))"
    by code_simp
  have i: "insert_user 40 (demo_db demo_rows2) ann_again = Inl (IntegrityError (UniqueViolation ''email''))"
    by code_simp
  have l0: "log (demo_db demo_rows2) = []"
    by (simp add: demo_db_def)
  note inst = save_error_propagation [of demo_slugify "quiet 30" "demo_db demo_rows2" orphan_task
      "quiet 31" 40 ann_again, unfolded Let_def]
  have t: "log (snd (task_save demo_slugify (quiet 30) (quiet 31) (demo_db demo_rows2) orphan_task))
     = log (demo_db demo_rows2) @ [Add, Commit (Some (IntegrityError (ForeignKeyViolation ''user_id''))),
        Rollback, Add,
        Commit (case fst (task_save demo_slugify (quiet 30) (quiet 31) (demo_db demo_rows2)
          orphan_task) of Inl e \<Rightarrow> Some e | Inr t \<Rightarrow> None)]"
    using inst h by blast
  have u: "fst (user_save 40 (demo_db demo_rows2) ann_again) = Inl (IntegrityError (UniqueViolation ''email''))"
    using inst i by blast
  have ul: "log (snd (user_save 40 (demo_db demo_rows2) ann_again)) =
     log (demo_db demo_rows2) @ [Add, Commit (case fst (user_save 40 (demo_db demo_rows2) ann_again)
        of Inl e \<Rightarrow> Some e | Inr u' \<Rightarrow> None)]"
    using inst by blast
  have q: "other_users (quiet 31) = []"
    by (simp add: quiet_def)
  have "\<exists>e. fst (task_save demo_slugify (quiet 30) (quiet 31) (demo_db demo_rows2) orphan_task) = Inl e"
    using inst h q by blast
  have r2: "fst (task_save demo_slugify (quiet 30) late_owner (demo_db demo_rows2) orphan_task)
     = Inr ((demo_row 4 ''Buy milk'' ''buy-milk-2'' 31)\<lparr>t_user_id := Some 7\<rparr>)"
    by code_simp
  note inst2 = save_error_propagation [of demo_slugify "quiet 30" "demo_db demo_rows2" orphan_task
      late_owner 40 ann_again, unfolded Let_def]
  have t2: "log (snd (task_save demo_slugify (quiet 30) late_owner (demo_db demo_rows2) orphan_task))
     = log (demo_db demo_rows2) @ [Add, Commit (Some (IntegrityError (ForeignKeyViolation ''user_id''))),
        Rollback, Add,
        Commit (case fst (task_save demo_slugify (quiet 30) late_owner (demo_db demo_rows2)
          orphan_task) of Inl e \<Rightarrow> Some e | Inr t \<Rightarrow> None)]"
    using inst2 h by blast
  from h r i t u ul l0 r2 t2 show ?thesis
    by simp
qed

section \<open>Signing up\<close>

lemma insert_user_Inr_row:
  assumes "insert_user ts d x = Inr (d', u)"
  shows "get_by_email d (u_email x) = None \<and> users d' = users d @ [u] \<and> u_email u = u_email x
    \<and> u_name u = u_name x \<and> u_password_hash u = u_password_hash x"
  using assms
  by (auto simp: insert_user_def Let_def user_defaults_def split: option.splits if_splits)

lemma user_save_Inr:
  assumes "user_save ts d x = (Inr u, d')"
  shows "get_by_email d' (u_email x) = Some u \<and> u_email u = u_email x"
proof -
  from assms obtain d2 where ins: "insert_user ts (session_add d) x = Inr (d2, u)"
    and d': "d' = d2\<lparr>log := log d2 @ [Commit None]\<rparr>"
    by (auto simp: user_save_def session_commit_user_def split: sum.splits prod.splits)
  from insert_user_Inr_row [OF ins]
  have fresh: "find (\<lambda>r. u_email r = u_email x) (users (session_add d)) = None"
    and rows: "users d2 = users (session_add d) @ [u]" and em: "u_email u = u_email x"
    by (simp_all add: get_by_email_def)
  have "get_by_email d' (u_email x) = Some u"
    using find_snoc_fresh [OF fresh, of u] em by (simp add: get_by_email_def d' rows)
  with em show ?thesis by simp
qed

lemma signup_created:
  assumes "signup gph ts d req form = (Inr out, d')"
    and "login_user out = Some u"
  shows "get_by_email d' (lower (strip (sf_email form))) = Some u \<and>
    u_email u = lower (strip (sf_email form))"
proof -
  let ?x = "set_password gph \<lparr>u_id = None, u_name = strip (sf_name form),
     u_email = lower (strip (sf_email form)), u_password_hash = None, u_created_at = None\<rparr>
     (sf_password form)"
  have em: "u_email ?x = lower (strip (sf_email form))"
    by (simp add: set_password_def)
  from assms have "user_save ts d ?x = (Inr u, d')"
    by (auto simp: signup_def Let_def split: if_splits option.splits sum.splits prod.splits)
  from user_save_Inr [OF this] em show ?thesis by simp
qed

lemma lower_strip_example: "lower (strip ''A@B.com'') = ''a@b.com''"
  by code_simp

text \<open>
  Claim C7. After a signup with the e-mail address \<open>A@B.com\<close> that created an account,
  \<open>User.get_by_email("a@b.com")\<close> returns that user: the view stores the address stripped
  and lowercased, and looks it up in the same form.
\<close>

theorem signup_then_get_by_email:
  assumes "fst (signup gph ts d req form) = Inr out"
    and "login_user out = Some u"
  shows "get_by_email (snd (signup gph ts d req form)) (lower (strip (sf_email form))) = Some u \<and>
    u_email u = lower (strip (sf_email form)) \<and>
    (sf_email form = ''A@B.com'' \<longrightarrow>
       get_by_email (snd (signup gph ts d req form)) ''a@b.com'' = Some u \<and> u_email u = ''a@b.com'')"
proof -
  have "signup gph ts d req form = (Inr out, snd (signup gph ts d req form))"
    using assms(1) by (metis prod.collapse)
  from signup_created [OF this assms(2)] show ?thesis
    by (auto simp: lower_strip_example)
qed

theorem signup_then_get_by_email_witness:
  "fst (signup demo_hash 50 (demo_db []) post_anonymous bea_form) =
     Inr \<lparr>resp = Redirect ''index'', login_user = Some bea,
          flashed = [(''Welcome! Your account has been created.'', ''success'')]\<rparr> \<and>
   get_by_email (snd (signup demo_hash 50 (demo_db []) post_anonymous bea_form)) ''a@b.com''
     = Some bea"
proof -
  have h: "fst (signup demo_hash 50 (demo_db []) post_anonymous bea_form) =
     Inr \<lparr>resp = Redirect ''index'', login_user = Some bea,
          flashed = [(''Welcome! Your account has been created.'', ''success'')]\<rparr>"
    by code_simp
  have e: "sf_email bea_form = ''A@B.com''"
    by (simp add: bea_form_def)
  from signup_then_get_by_email [OF h, of bea] e h show ?thesis
    by simp
qed

section \<open>Listing tasks\<close>








section \<open>Passwords and the login check\<close>

text \<open>
  \<open>User.check_password\<close> hands the stored hash and the password to Werkzeug's verifier and
  returns what it returns; it handles no exception. After \<open>set_password\<close> the verifier is
  asked about the hash that Werkzeug generated. The login view logs a user in exactly when
  the lookup by the normalised address finds one and the verifier accepts.
\<close>

lemma check_password_forwards:
  "check_password check_password_hash self password =
     check_password_hash (u_password_hash self) password"
  by (simp add: check_password_def)

lemma check_password_after_set_password:
  "check_password check_password_hash (set_password generate_password_hash self pw) q =
     check_password_hash (Some (generate_password_hash pw)) q"
  by (simp add: check_password_def set_password_def)

lemma login_credentials_user:
  "login_credentials check_password_hash d email password = Inr (Some u) \<longleftrightarrow>
     get_by_email d (lower (strip email)) = Some u \<and>
     check_password_hash (u_password_hash u) password = Inr True"
  by (auto simp: login_credentials_def check_password_def split: option.splits sum.splits)

lemma login_credentials_absent:
  "get_by_email d (lower (strip email)) = None \<Longrightarrow>
     login_credentials check_password_hash d email password = Inr None"
  by (simp add: login_credentials_def)

end
